theory Spec2Isabelle
  imports Complex_Main "HOL-Library.Multiset"
begin

section \<open>N-gram language guesser (lang\_guess.py)\<close>

text \<open>
  A shallow embedding of \<^verbatim>\<open>lang_guess.py\<close>. Python's unbounded integers are \<open>int\<close>,
  unicode strings are \<open>string\<close> (one \<open>char\<close> per code point, so texts are taken from
  the code points below 256), dictionaries are association lists with pairwise distinct
  keys in iteration order, and exceptions are values of \<open>py_error\<close> on the left of a sum.
  The operating system (\<^verbatim>\<open>os.path\<close>, \<^verbatim>\<open>os.walk\<close>, \<^verbatim>\<open>codecs.open\<close>) is a record of
  functions handed to every operation that touches it. Python's floats are the reals:
  the zero test of the float division is exact, rounding is not modelled. Logging has no
  effect on any result and is left out.
\<close>

subsection \<open>Python values and builtins\<close>

datatype py_error =
    IOError | UnicodeDecodeError | ValueError | KeyError
  | ZeroDivisionError | AttributeError | TypeError

type_synonym model = "(string \<times> int) list"

definition py_len :: "'a list \<Rightarrow> int" where
  "py_len xs = int (length xs)"

text \<open>\<^verbatim>\<open>k * s\<close> on a string: the empty string when \<open>k \<le> 0\<close>.\<close>

definition py_repeat :: "int \<Rightarrow> 'a list \<Rightarrow> 'a list" where
  "py_repeat k s = concat (replicate (nat k) s)"

text \<open>\<^verbatim>\<open>s[i:j]\<close>: negative indices count from the end, both ends are clamped.\<close>

definition py_slice :: "'a list \<Rightarrow> int \<Rightarrow> int \<Rightarrow> 'a list" where
  "py_slice s i j =
     (let l = py_len s;
          i' = (if i < 0 then max (i + l) 0 else min i l);
          j' = (if j < 0 then max (j + l) 0 else min j l)
      in take (nat (j' - i')) (drop (nat i') s))"

definition xrange :: "int \<Rightarrow> int list" where
  "xrange k = map int [0..<nat k]"

definition endswith :: "string \<Rightarrow> string \<Rightarrow> bool" where
  "endswith s suf = (length suf \<le> length s \<and> drop (length s - length suf) s = suf)"

text \<open>\<^verbatim>\<open>unicode.isspace\<close> on the code points below 256.\<close>

definition isspace :: "char \<Rightarrow> bool" where
  "isspace c = ((of_char c :: nat) \<in> {9, 10, 11, 12, 13, 28, 29, 30, 31, 32, 133, 160})"

text \<open>\<^verbatim>\<open>s.split()\<close>: the maximal runs of non-whitespace, left to right.\<close>

fun split_run :: "string \<Rightarrow> string \<Rightarrow> string list" where
  "split_run cur [] = (if cur = [] then [] else [cur])"
| "split_run cur (c # cs) =
     (if isspace c then (if cur = [] then split_run [] cs else cur # split_run [] cs)
      else split_run (cur @ [c]) cs)"

definition py_split :: "string \<Rightarrow> string list" where
  "py_split s = split_run [] s"




text \<open>\<^verbatim>\<open>posixpath.join(a, b)\<close>.\<close>

definition path_join :: "string \<Rightarrow> string \<Rightarrow> string" where
  "path_join a b =
     (if b \<noteq> [] \<and> hd b = CHR ''/'' then b
      else if a = [] \<or> last a = CHR ''/'' then a @ b
      else a @ ''/'' @ b)"

subsection \<open>Dictionaries\<close>

definition keys :: "('k \<times> 'v) list \<Rightarrow> 'k list" where
  "keys d = map fst d"

text \<open>\<^verbatim>\<open>d.get(k, default)\<close>, \<^verbatim>\<open>d[k]\<close> and \<^verbatim>\<open>d[k] = v\<close>.\<close>

definition dict_get :: "('k \<times> 'v) list \<Rightarrow> 'k \<Rightarrow> 'v \<Rightarrow> 'v" where
  "dict_get d k dflt = (case map_of d k of None \<Rightarrow> dflt | Some v \<Rightarrow> v)"

definition getitem :: "('k \<times> 'v) list \<Rightarrow> 'k \<Rightarrow> py_error + 'v" where
  "getitem d k = (case map_of d k of None \<Rightarrow> Inl KeyError | Some v \<Rightarrow> Inr v)"

fun setitem :: "'k \<Rightarrow> 'v \<Rightarrow> ('k \<times> 'v) list \<Rightarrow> ('k \<times> 'v) list" where
  "setitem k v [] = [(k, v)]"
| "setitem k v ((k', v') # d) = (if k' = k then (k, v) # d else (k', v') # setitem k v d)"

text \<open>The invariant of a dictionary: no key occurs twice.\<close>

definition is_dict :: "('k \<times> 'v) list \<Rightarrow> bool" where
  "is_dict d = distinct (keys d)"

subsection \<open>The operating system\<close>

text \<open>
  \<open>isdir\<close> and \<open>isfile\<close> are \<^verbatim>\<open>os.path.isdir\<close> and \<^verbatim>\<open>os.path.isfile\<close>; \<open>walk\<close> is the
  sequence of \<^verbatim>\<open>(root, dirs, files)\<close> triples of \<^verbatim>\<open>os.walk\<close>; \<open>read_text\<close> is
  \<^verbatim>\<open>codecs.open(fn, 'r', 'utf8').read()\<close> and \<open>read_lines\<close> the lines the same stream
  yields when iterated; both fail with \<open>IOError\<close> or \<open>UnicodeDecodeError\<close>.
  \<open>decode_utf8\<close> is \<^verbatim>\<open>str.decode('utf8')\<close> on a path. A stream that fails part-way
  is taken to fail as a whole, and the two output files are taken to be writable.
\<close>

record os_env =
  isdir :: "string \<Rightarrow> bool"
  isfile :: "string \<Rightarrow> bool"
  walk :: "string \<Rightarrow> (string \<times> string list \<times> string list) list"
  read_text :: "string \<Rightarrow> py_error + string"
  read_lines :: "string \<Rightarrow> py_error + string list"
  decode_utf8 :: "string \<Rightarrow> py_error + string"

subsection \<open>getNGrams\<close>

definition SEP :: string where
  "SEP = ''#''"

definition getNGrams :: "string \<Rightarrow> int \<Rightarrow> string list" where
  "getNGrams term n =
     (if term = [] then []
      else if py_len term < n then
        (let numSEP = n - py_len term
         in [py_repeat numSEP SEP @ term, term @ py_repeat numSEP SEP])
      else
        (let term' = (if n > 1 then SEP @ term @ SEP else term)
         in map (\<lambda>idx. py_slice term' idx (idx + n)) (xrange (py_len term' - n + 1))))"

subsection \<open>getModelFromFile\<close>

text \<open>The two nested loops over the terms of a file and the n-grams of a term.\<close>

definition countNGram :: "string \<Rightarrow> model \<Rightarrow> model" where
  "countNGram nGram nGrams = setitem nGram (dict_get nGrams nGram 0 + 1) nGrams"

definition countTerms :: "string list \<Rightarrow> int \<Rightarrow> model \<Rightarrow> model" where
  "countTerms terms n nGrams =
     fold (\<lambda>term nGrams. fold countNGram (getNGrams term n) nGrams) terms nGrams"

definition getModelFromFile :: "os_env \<Rightarrow> string \<Rightarrow> int \<Rightarrow> py_error + model" where
  "getModelFromFile env fn n =
     (case read_text env fn of
        Inl e \<Rightarrow> Inl e
      | Inr text \<Rightarrow> Inr (countTerms (py_split text) n []))"

subsection \<open>createModel\<close>

text \<open>The paths of the files visited by the two outer loops, in the order of the walk.\<close>

definition prepFiles :: "os_env \<Rightarrow> string \<Rightarrow> string list" where
  "prepFiles env src =
     concat (map (\<lambda>(root, dirs, files).
                    map (path_join root) (filter (\<lambda>fileName. endswith fileName ''_prep.txt'') files))
                 (walk env src))"

text \<open>The innermost loop: the counts of one file's model are added to the aggregate.\<close>

definition addFreqs :: "model \<Rightarrow> model \<Rightarrow> model" where
  "addFreqs fileModel model =
     fold (\<lambda>(nGram, freq) model. setitem nGram (dict_get model nGram 0 + freq) model)
          fileModel model"

fun mergeFiles :: "os_env \<Rightarrow> int \<Rightarrow> string list \<Rightarrow> model \<Rightarrow> py_error + model" where
  "mergeFiles env n [] model = Inr model"
| "mergeFiles env n (fn # fns) model =
     (case getModelFromFile env fn n of
        Inl e \<Rightarrow> Inl e
      | Inr fileModel \<Rightarrow> mergeFiles env n fns (addFreqs fileModel model))"

text \<open>
  The records written when \<open>writeToDisc\<close> is set: the 500 most frequent n-grams, by a
  stable sort on the count, largest first.
\<close>

definition modelFileRecords :: "model \<Rightarrow> (string \<times> int) list" where
  "modelFileRecords model =
     map (\<lambda>nGram. (nGram, dict_get model nGram 0))
         (take 500 (sort_key (\<lambda>nGram. - dict_get model nGram 0) (keys model)))"

text \<open>
  The result is the returned model together with the records written to
  \<^verbatim>\<open>model_<lang>_<n>.txt\<close>, if any.
\<close>

definition createModel ::
  "os_env \<Rightarrow> string \<Rightarrow> string \<Rightarrow> int \<Rightarrow> bool \<Rightarrow> py_error + (model \<times> (string \<times> int) list option)"
where
  "createModel env lang src n writeToDisc =
     (case (if isdir env src then mergeFiles env n (prepFiles env src) []
            else if isfile env src then getModelFromFile env src n
            else Inr []) of
        Inl e \<Rightarrow> Inl e
      | Inr model \<Rightarrow>
          Inr (model, if writeToDisc then Some (modelFileRecords model) else None))"

subsection \<open>getCosSim\<close>

text \<open>The first loop, over the keys of \<open>model1\<close>, with the three accumulators.\<close>

fun cosLoop1 ::
  "model \<Rightarrow> model \<Rightarrow> string list \<Rightarrow> int \<times> int \<times> int \<Rightarrow> py_error + int \<times> int \<times> int"
where
  "cosLoop1 model1 model2 [] acc = Inr acc"
| "cosLoop1 model1 model2 (term1 # rest) (num, denom1, denom2) =
     (let term2Freq = dict_get model2 term1 0
      in case getitem model1 term1 of
           Inl e \<Rightarrow> Inl e
         | Inr f1 \<Rightarrow>
             cosLoop1 model1 model2 rest
               (num + f1 * term2Freq, denom1 + f1 * f1, denom2 + term2Freq * term2Freq))"

text \<open>The second loop, over the keys of \<open>model2\<close> that \<open>model1\<close> does not have.\<close>

fun cosLoop2 :: "model \<Rightarrow> string list \<Rightarrow> int \<Rightarrow> py_error + int" where
  "cosLoop2 model2 [] denom2 = Inr denom2"
| "cosLoop2 model2 (term2 # rest) denom2 =
     (case getitem model2 term2 of
        Inl e \<Rightarrow> Inl e
      | Inr f2 \<Rightarrow> cosLoop2 model2 rest (denom2 + f2 * f2))"

definition getCosSim :: "model \<Rightarrow> model \<Rightarrow> py_error + real" where
  "getCosSim model1 model2 =
     (case cosLoop1 model1 model2 (keys model1) (0, 0, 0) of
        Inl e \<Rightarrow> Inl e
      | Inr (num, denom1, denom2) \<Rightarrow>
          (case cosLoop2 model2
                  (filter (\<lambda>term2. term2 \<notin> set (keys model1)) (keys model2)) denom2 of
             Inl e \<Rightarrow> Inl e
           | Inr denom2' \<Rightarrow>
               (let d = sqrt (real_of_int denom1) * sqrt (real_of_int denom2')
                in if d = 0 then Inl ZeroDivisionError else Inr (real_of_int num / d))))"

subsection \<open>computeSimilarities\<close>


text \<open>The inner loop of the directory branch: one more file in the running model.\<close>

definition addKeys :: "model \<Rightarrow> model \<Rightarrow> model" where
  "addKeys fileModel model =
     fold (\<lambda>nGram model. setitem nGram (dict_get model nGram 0 + 1) model)
          (keys fileModel) model"



subsection \<open>The similarity formula in the words of the specification\<close>

text \<open>
  The numerator is the sum over the n-grams of \<open>A\<close> of the product of the two counts,
  with count 0 for an n-gram absent from \<open>B\<close>; the first magnitude is the sum of the
  squared counts of \<open>A\<close> over its keys, the second the sum of the squared counts of
  \<open>B\<close> over the union of the keys of both models.
\<close>

definition specN :: "model \<Rightarrow> model \<Rightarrow> int" where
  "specN A B = (\<Sum>g \<in> set (keys A). dict_get A g 0 * dict_get B g 0)"

definition specD1 :: "model \<Rightarrow> int" where
  "specD1 A = (\<Sum>g \<in> set (keys A). (dict_get A g 0)\<^sup>2)"

definition specD2 :: "model \<Rightarrow> model \<Rightarrow> int" where
  "specD2 A B = (\<Sum>g \<in> set (keys A) \<union> set (keys B). (dict_get B g 0)\<^sup>2)"

subsection \<open>The n-grams of a file and the files that contain an n-gram\<close>

text \<open>All n-gram occurrences of a text, term by term.\<close>

definition fileNGrams :: "string \<Rightarrow> int \<Rightarrow> string list" where
  "fileNGrams text n = concat (map (\<lambda>term. getNGrams term n) (py_split text))"



subsection \<open>A small file system\<close>

text \<open>
  A directory \<^verbatim>\<open>corpus\<close> with one pre-processed text and one other file, a reference
  listing, a file that cannot be read, and nothing else.
\<close>

definition demo_env :: os_env where
  "demo_env =
     \<lparr> isdir = (\<lambda>p. p = ''corpus''),
       isfile = (\<lambda>p. p = ''corpus/a_prep.txt'' \<or> p = ''corpus/notes.txt''
                      \<or> p = ''ref.txt'' \<or> p = ''locked.txt''),
       walk = (\<lambda>p. if p = ''corpus'' then [(''corpus'', [], [''a_prep.txt'', ''notes.txt''])]
                    else []),
       read_text = (\<lambda>p. if p = ''corpus/a_prep.txt'' then Inr ''a b ccc ddddd''
                         else Inl IOError),
       read_lines = (\<lambda>p. if p = ''ref.txt'' then Inr [[CHR ''d'', CHR 0x09, CHR ''1'', CHR 0x0A]]
                          else Inl IOError),
       decode_utf8 = Inr \<rparr>"

section \<open>Properties\<close>

subsection \<open>Dictionaries\<close>

lemma map_of_setitem: "map_of (setitem k v d) = (map_of d)(k \<mapsto> v)"
  by (induction d) (auto simp: fun_eq_iff)

lemma keys_setitem:
  "keys (setitem k v d) = (if k \<in> set (keys d) then keys d else keys d @ [k])"
  by (induction d) (force simp: keys_def)+

lemma is_dict_setitem: "is_dict d \<Longrightarrow> is_dict (setitem k v d)"
  by (simp add: is_dict_def keys_setitem)

lemma dict_get_setitem:
  "dict_get (setitem k v d) k' dflt = (if k' = k then v else dict_get d k' dflt)"
  by (simp add: dict_get_def map_of_setitem)

lemma getitem_key: "k \<in> set (keys d) \<Longrightarrow> getitem d k = Inr (dict_get d k dflt)"
  by (cases "map_of d k") (auto simp: getitem_def dict_get_def keys_def map_of_eq_None_iff)

lemma dict_get_absent: "k \<notin> set (keys d) \<Longrightarrow> dict_get d k dflt = dflt"
  by (cases "map_of d k")
     (auto simp: dict_get_def keys_def dest: map_of_SomeD intro: rev_image_eqI)

subsection \<open>The n-gram extractor\<close>



text \<open>
  C7. A non-empty term shorter than \<open>n\<close> yields exactly two n-grams, each of length
  \<open>n\<close>: the term with separators in front up to length \<open>n\<close>, then the term with
  separators behind up to length \<open>n\<close>.
\<close>

theorem getNGrams_short_term:
  assumes "term \<noteq> []" and "py_len term < n"
  shows "getNGrams term n =
           [replicate (nat (n - py_len term)) CHR ''#'' @ term,
            term @ replicate (nat (n - py_len term)) CHR ''#'']
       \<and> length (getNGrams term n) = 2
       \<and> (\<forall>g \<in> set (getNGrams term n). py_len g = n)"
  using assms by (auto simp: getNGrams_def py_len_def py_repeat_def SEP_def Let_def)

theorem getNGrams_short_term_witness:
  "''a'' \<noteq> [] \<and> py_len ''a'' < 4 \<and> getNGrams ''a'' 4 = [''###a'', ''a###'']"
proof -
  have "replicate (nat 3) CHR ''#'' = ''###''"
    by (simp add: numeral_3_eq_3)
  then show ?thesis
    using getNGrams_short_term [of "''a''" 4] by (simp add: py_len_def)
qed

subsection \<open>Cosine similarity\<close>

lemma cosLoop1_sums:
  "set ks \<subseteq> set (keys m1) \<Longrightarrow>
   cosLoop1 m1 m2 ks (a, b, c) =
     Inr (a + (\<Sum>k\<leftarrow>ks. dict_get m1 k 0 * dict_get m2 k 0),
          b + (\<Sum>k\<leftarrow>ks. dict_get m1 k 0 * dict_get m1 k 0),
          c + (\<Sum>k\<leftarrow>ks. dict_get m2 k 0 * dict_get m2 k 0))"
proof (induction ks arbitrary: a b c)
  case Nil
  then show ?case by simp
next
  case (Cons k ks)
  then have "getitem m1 k = Inr (dict_get m1 k 0)"
    by (simp add: getitem_key)
  with Cons show ?case
    by (simp add: Let_def algebra_simps)
qed

lemma cosLoop2_sums:
  "set ks \<subseteq> set (keys m2) \<Longrightarrow>
   cosLoop2 m2 ks c = Inr (c + (\<Sum>k\<leftarrow>ks. dict_get m2 k 0 * dict_get m2 k 0))"
proof (induction ks arbitrary: c)
  case Nil
  then show ?case by simp
next
  case (Cons k ks)
  then have "getitem m2 k = Inr (dict_get m2 k 0)"
    by (simp add: getitem_key)
  with Cons show ?case
    by (simp add: algebra_simps)
qed

text \<open>Neither loop raises; the result is a quotient of list sums or a division by zero.\<close>

lemma getCosSim_sum_list:
  "getCosSim A B =
    (let num = (\<Sum>k\<leftarrow>keys A. dict_get A k 0 * dict_get B k 0);
         denom1 = (\<Sum>k\<leftarrow>keys A. dict_get A k 0 * dict_get A k 0);
         denom2 = (\<Sum>k\<leftarrow>keys A. dict_get B k 0 * dict_get B k 0)
                  + (\<Sum>k\<leftarrow>filter (\<lambda>k. k \<notin> set (keys A)) (keys B).
                        dict_get B k 0 * dict_get B k 0);
         d = sqrt (real_of_int denom1) * sqrt (real_of_int denom2)
     in if d = 0 then Inl ZeroDivisionError else Inr (real_of_int num / d))"
proof -
  have 1: "cosLoop1 A B (keys A) (0, 0, 0) =
     Inr ((\<Sum>k\<leftarrow>keys A. dict_get A k 0 * dict_get B k 0),
          (\<Sum>k\<leftarrow>keys A. dict_get A k 0 * dict_get A k 0),
          (\<Sum>k\<leftarrow>keys A. dict_get B k 0 * dict_get B k 0))"
    using cosLoop1_sums [of "keys A" A B 0 0 0] by simp
  have 2: "cosLoop2 B (filter (\<lambda>k. k \<notin> set (keys A)) (keys B)) c =
     Inr (c + (\<Sum>k\<leftarrow>filter (\<lambda>k. k \<notin> set (keys A)) (keys B).
                  dict_get B k 0 * dict_get B k 0))" for c
    by (rule cosLoop2_sums) auto
  show ?thesis
    unfolding getCosSim_def 1 by (simp add: 2 Let_def)
qed

lemma sums_spec:
  assumes "is_dict A" "is_dict B"
  shows "(\<Sum>k\<leftarrow>keys A. dict_get A k 0 * dict_get B k 0) = specN A B"
    and "(\<Sum>k\<leftarrow>keys A. dict_get A k 0 * dict_get A k 0) = specD1 A"
    and "(\<Sum>k\<leftarrow>keys A. dict_get B k 0 * dict_get B k 0)
          + (\<Sum>k\<leftarrow>filter (\<lambda>k. k \<notin> set (keys A)) (keys B).
                dict_get B k 0 * dict_get B k 0)
         = specD2 A B"
proof -
  from assms have dA: "distinct (keys A)" and dB: "distinct (keys B)"
    by (simp_all add: is_dict_def)
  show "(\<Sum>k\<leftarrow>keys A. dict_get A k 0 * dict_get B k 0) = specN A B"
    by (simp add: specN_def sum_list_distinct_conv_sum_set [OF dA])
  show "(\<Sum>k\<leftarrow>keys A. dict_get A k 0 * dict_get A k 0) = specD1 A"
    by (simp add: specD1_def sum_list_distinct_conv_sum_set [OF dA] power2_eq_square)
  have dF: "distinct (filter (\<lambda>k. k \<notin> set (keys A)) (keys B))"
    using dB by simp
  have U: "set (keys A) \<union> set (keys B) = set (keys A) \<union> (set (keys B) - set (keys A))"
    by auto
  show "(\<Sum>k\<leftarrow>keys A. dict_get B k 0 * dict_get B k 0)
          + (\<Sum>k\<leftarrow>filter (\<lambda>k. k \<notin> set (keys A)) (keys B).
                dict_get B k 0 * dict_get B k 0)
         = specD2 A B"
    unfolding specD2_def U
    by (subst sum.union_disjoint)
       (auto simp: sum_list_distinct_conv_sum_set [OF dA]
          sum_list_distinct_conv_sum_set [OF dF] power2_eq_square set_diff_eq
          intro!: sum.cong arg_cong2 [where f = "(+)"])
qed

lemma getCosSim_spec:
  assumes "is_dict A" "is_dict B"
  shows "getCosSim A B =
    (if sqrt (real_of_int (specD1 A)) * sqrt (real_of_int (specD2 A B)) = 0
     then Inl ZeroDivisionError
     else Inr (real_of_int (specN A B)
               / (sqrt (real_of_int (specD1 A)) * sqrt (real_of_int (specD2 A B)))))"
  unfolding getCosSim_sum_list sums_spec [OF assms] by (simp add: Let_def)

lemma specD2_eq: "specD2 A B = specD1 B"
  unfolding specD2_def specD1_def
  by (rule sum.mono_neutral_right) (auto simp: dict_get_absent)

lemma specN_inter:
  "specN A B = (\<Sum>g \<in> set (keys A) \<inter> set (keys B). dict_get A g 0 * dict_get B g 0)"
  unfolding specN_def
  by (rule sum.mono_neutral_right) (auto simp: dict_get_absent)

lemma specN_commute: "specN A B = specN B A"
  unfolding specN_inter by (simp add: Int_commute mult.commute)

text \<open>
  C4. For dictionaries \<open>A\<close> and \<open>B\<close> the result of \<open>getCosSim A B\<close> is
  \<open>N / (sqrt D1 * sqrt D2)\<close>, with \<open>N\<close> the sum over the n-grams of \<open>A\<close> of the
  products of the counts (0 for an n-gram absent from \<open>B\<close>), \<open>D1\<close> the sum of the
  squared counts of \<open>A\<close> and \<open>D2\<close> the sum of the squared counts of \<open>B\<close> over the
  union of the keys; where that denominator is 0 the division raises.
\<close>

theorem getCosSim_formula:
  assumes "is_dict A" and "is_dict B"
  shows "getCosSim A B =
    (if sqrt (real_of_int (specD1 A)) * sqrt (real_of_int (specD2 A B)) = 0
     then Inl ZeroDivisionError
     else Inr (real_of_int (specN A B)
               / (sqrt (real_of_int (specD1 A)) * sqrt (real_of_int (specD2 A B)))))"
  using assms by (rule getCosSim_spec)

theorem getCosSim_formula_witness:
  "is_dict [(''ab'', 3::int)] \<and> is_dict [(''ab'', 4::int), (''cd'', 3)]
   \<and> getCosSim [(''ab'', 3)] [(''ab'', 4), (''cd'', 3)] = Inr (4 / 5)"
proof -
  have d: "is_dict [(''ab'', 3::int)]" "is_dict [(''ab'', 4::int), (''cd'', 3)]"
    by (simp_all add: is_dict_def keys_def)
  have s: "specD1 [(''ab'', 3)] = 9" "specD2 [(''ab'', 3)] [(''ab'', 4), (''cd'', 3)] = 25"
     "specN [(''ab'', 3)] [(''ab'', 4), (''cd'', 3)] = 12"
    by code_simp+
  have r: "sqrt 9 = 3" "sqrt 25 = 5"
    by (rule real_sqrt_unique; simp)+
  show ?thesis
    using getCosSim_formula [OF d] d by (simp add: s r)
qed

text \<open>
  C8. For dictionaries \<open>A\<close> and \<open>B\<close>, empty or not, \<open>getCosSim A B\<close> and
  \<open>getCosSim B A\<close> are the same, although the loops run over the keys of the first
  argument and then over the keys only the second has.
\<close>

theorem getCosSim_symmetric:
  assumes "is_dict A" and "is_dict B"
  shows "getCosSim A B = getCosSim B A"
  unfolding getCosSim_spec [OF assms] getCosSim_spec [OF assms(2,1)] specD2_eq
    specN_commute [of A B]
  by (simp add: mult.commute)

theorem getCosSim_symmetric_witness:
  "is_dict [(''ab'', 3::int)] \<and> is_dict [(''ab'', 4::int), (''cd'', 3)]
   \<and> getCosSim [(''ab'', 3)] [(''ab'', 4), (''cd'', 3)]
     = getCosSim [(''ab'', 4), (''cd'', 3)] [(''ab'', 3)]"
proof -
  have d: "is_dict [(''ab'', 3::int)]" "is_dict [(''ab'', 4::int), (''cd'', 3)]"
    by (simp_all add: is_dict_def keys_def)
  show ?thesis
    using getCosSim_symmetric [OF d] d by simp
qed




subsection \<open>Merging per-file models\<close>

lemma map_of_absent: "g \<notin> set (keys d) \<Longrightarrow> map_of d g = None"
  by (simp add: keys_def map_of_eq_None_iff)

lemma map_of_present: "g \<in> set (keys d) \<Longrightarrow> map_of d g = Some (dict_get d g dflt)"
  by (cases "map_of d g") (auto simp: dict_get_def keys_def map_of_eq_None_iff)

lemma set_keys_setitem: "set (keys (setitem k v d)) = insert k (set (keys d))"
  by (auto simp: keys_setitem)

lemma tot_absent: "g \<notin> set (keys fm) \<Longrightarrow> (\<Sum>p\<leftarrow>fm. if fst p = g then snd p else 0) = (0::int)"
  by (induction fm) (auto simp: keys_def)

lemma tot_dict:
  "is_dict fm \<Longrightarrow> (\<Sum>p\<leftarrow>fm. if fst p = g then snd p else 0) = dict_get fm g (0::int)"
proof (induction fm)
  case Nil
  then show ?case by (simp add: dict_get_def)
next
  case (Cons p fm)
  then have d: "is_dict fm" and n: "fst p \<notin> set (keys fm)"
    by (simp_all add: is_dict_def keys_def)
  show ?case
  proof (cases "fst p = g")
    case True
    with n have "(\<Sum>p\<leftarrow>fm. if fst p = g then snd p else 0) = (0::int)"
      by (simp add: tot_absent)
    with True show ?thesis
      by (cases p) (simp add: dict_get_def)
  next
    case False
    with Cons.IH [OF d] show ?thesis
      by (cases p) (simp add: dict_get_def)
  qed
qed

lemma addFreqs_Cons:
  "addFreqs (p # fm) m = addFreqs fm (setitem (fst p) (dict_get m (fst p) 0 + snd p) m)"
  by (cases p) (simp add: addFreqs_def)

lemma dict_get_addFreqs:
  "dict_get (addFreqs fm m) g 0 = dict_get m g 0 + (\<Sum>p\<leftarrow>fm. if fst p = g then snd p else 0)"
proof (induction fm arbitrary: m)
  case Nil
  then show ?case by (simp add: addFreqs_def)
next
  case (Cons p fm)
  show ?case
    unfolding addFreqs_Cons Cons.IH by (simp add: dict_get_setitem)
qed

lemma keys_addFreqs: "set (keys (addFreqs fm m)) = set (keys m) \<union> set (keys fm)"
proof (induction fm arbitrary: m)
  case Nil
  then show ?case by (simp add: addFreqs_def keys_def)
next
  case (Cons p fm)
  show ?case
    unfolding addFreqs_Cons Cons.IH set_keys_setitem by (simp add: keys_def)
qed

lemma is_dict_addFreqs: "is_dict m \<Longrightarrow> is_dict (addFreqs fm m)"
proof (induction fm arbitrary: m)
  case Nil
  then show ?case by (simp add: addFreqs_def)
next
  case (Cons p fm)
  show ?case
    unfolding addFreqs_Cons by (rule Cons.IH) (simp add: is_dict_setitem Cons.prems)
qed

lemma map_of_dict_get:
  "map_of d g = (if g \<in> set (keys d) then Some (dict_get d g dflt) else None)"
  by (simp add: map_of_absent map_of_present)

lemma dict_get_fold_addFreqs:
  "dict_get (fold addFreqs fms m) g 0 =
     dict_get m g 0 + (\<Sum>fm\<leftarrow>fms. \<Sum>p\<leftarrow>fm. if fst p = g then snd p else 0)"
  by (induction fms arbitrary: m) (simp_all add: dict_get_addFreqs)

lemma keys_fold_addFreqs:
  "set (keys (fold addFreqs fms m)) = set (keys m) \<union> (\<Union>fm \<in> set fms. set (keys fm))"
  by (induction fms arbitrary: m) (auto simp: keys_addFreqs)

lemma sum_list_perm:
  fixes f :: "'a \<Rightarrow> int"
  assumes "mset xs = mset ys"
  shows "sum_list (map f xs) = sum_list (map f ys)"
proof -
  have "sum_list (map f xs) = sum_mset (mset (map f xs))"
    by (simp only: sum_mset_sum_list)
  also have "mset (map f xs) = mset (map f ys)"
    by (simp only: mset_map assms)
  also have "sum_mset (mset (map f ys)) = sum_list (map f ys)"
    by (simp only: sum_mset_sum_list)
  finally show ?thesis .
qed

lemma fold_addFreqs_perm:
  assumes "mset fms = mset fms'"
  shows "map_of (fold addFreqs fms m) = map_of (fold addFreqs fms' m)"
proof
  fix g
  have s: "set fms = set fms'"
    using assms by (rule mset_eq_setD)
  have k: "set (keys (fold addFreqs fms m)) = set (keys (fold addFreqs fms' m))"
    by (simp only: keys_fold_addFreqs s)
  have v: "dict_get (fold addFreqs fms m) g 0 = dict_get (fold addFreqs fms' m) g 0"
    by (simp only: dict_get_fold_addFreqs sum_list_perm [OF assms])
  show "map_of (fold addFreqs fms m) g = map_of (fold addFreqs fms' m) g"
    by (simp only: map_of_dict_get [where dflt = 0] k v)
qed

lemma addFreqs_commute:
  assumes "is_dict a" "is_dict b"
  shows "map_of (addFreqs b a) = map_of (addFreqs a b)"
proof
  fix g
  have k: "set (keys (addFreqs b a)) = set (keys (addFreqs a b))"
    by (simp only: keys_addFreqs Un_commute)
  have v: "dict_get (addFreqs b a) g 0 = dict_get (addFreqs a b) g 0"
    by (simp only: dict_get_addFreqs tot_dict [OF assms(1)] tot_dict [OF assms(2)] add.commute)
  show "map_of (addFreqs b a) g = map_of (addFreqs a b) g"
    by (simp only: map_of_dict_get [where dflt = 0] k v)
qed

lemma addFreqs_assoc:
  assumes "is_dict b"
  shows "map_of (addFreqs c (addFreqs b a)) = map_of (addFreqs (addFreqs c b) a)"
proof
  fix g
  have d: "is_dict (addFreqs c b)"
    using assms by (rule is_dict_addFreqs)
  have k: "set (keys (addFreqs c (addFreqs b a))) = set (keys (addFreqs (addFreqs c b) a))"
    by (simp only: keys_addFreqs Un_assoc)
  have v: "dict_get (addFreqs c (addFreqs b a)) g 0 = dict_get (addFreqs (addFreqs c b) a) g 0"
    by (simp only: dict_get_addFreqs tot_dict [OF d] tot_dict [OF assms] add.assoc)
  show "map_of (addFreqs c (addFreqs b a)) g = map_of (addFreqs (addFreqs c b) a) g"
    by (simp only: map_of_dict_get [where dflt = 0] k v)
qed


text \<open>
  C9. Merging by adding counts is commutative and associative on dictionaries, and
  merging a list of per-file models into an aggregate gives the same mapping for every
  order of the list.
\<close>

theorem addFreqs_order_independent:
  assumes "is_dict a" and "is_dict b" and "mset fms = mset fms'"
  shows "map_of (addFreqs b a) = map_of (addFreqs a b)
       \<and> map_of (addFreqs c (addFreqs b a)) = map_of (addFreqs (addFreqs c b) a)
       \<and> map_of (fold addFreqs fms model) = map_of (fold addFreqs fms' model)"
  using addFreqs_commute [OF assms(1,2)] addFreqs_assoc [OF assms(2)]
    fold_addFreqs_perm [OF assms(3)]
  by simp

theorem addFreqs_order_independent_witness:
  "is_dict [(''ab'', 1::int)] \<and> is_dict [(''cd'', 2::int), (''ab'', 3)]
   \<and> mset [[(''ab'', 1::int)], [(''cd'', 2), (''ab'', 3)]]
     = mset [[(''cd'', 2), (''ab'', 3)], [(''ab'', 1)]]
   \<and> map_of (fold addFreqs [[(''ab'', 1)], [(''cd'', 2), (''ab'', 3)]] [])
     = map_of (fold addFreqs [[(''cd'', 2), (''ab'', 3)], [(''ab'', 1)]] [])
   \<and> fold addFreqs [[(''ab'', 1)], [(''cd'', 2), (''ab'', 3)]] [] = [(''ab'', 4), (''cd'', 2)]
   \<and> fold addFreqs [[(''cd'', 2), (''ab'', 3)], [(''ab'', 1)]] [] = [(''cd'', 2), (''ab'', 4)]"
proof -
  have d: "is_dict [(''ab'', 1::int)]" "is_dict [(''cd'', 2::int), (''ab'', 3)]"
    by (simp_all add: is_dict_def keys_def)
  have m: "mset [[(''ab'', 1::int)], [(''cd'', 2), (''ab'', 3)]]
     = mset [[(''cd'', 2), (''ab'', 3)], [(''ab'', 1)]]"
    by simp
  have e: "fold addFreqs [[(''ab'', 1)], [(''cd'', 2), (''ab'', 3)]] [] = [(''ab'', 4), (''cd'', 2)]"
    "fold addFreqs [[(''cd'', 2), (''ab'', 3)], [(''ab'', 1)]] [] = [(''cd'', 2), (''ab'', 4)]"
    by (simp_all add: addFreqs_def dict_get_def)
  have p: "map_of (fold addFreqs [[(''ab'', 1)], [(''cd'', 2), (''ab'', 3)]] [])
     = map_of (fold addFreqs [[(''cd'', 2), (''ab'', 3)], [(''ab'', 1)]] [])"
    using addFreqs_order_independent [OF d m, of "[]" "[]"] by (rule conjunct2 [THEN conjunct2])
  show ?thesis
    by (intro conjI d m p e)
qed

subsection \<open>Counting n-grams and counting files\<close>

lemma countNGram_alt: "(\<lambda>nGram model. setitem nGram (dict_get model nGram 0 + 1) model) = countNGram"
  by (simp add: fun_eq_iff countNGram_def)

lemma addKeys_fold: "addKeys fm m = fold countNGram (keys fm) m"
  by (simp add: addKeys_def countNGram_alt)

lemma fold_concat_list: "fold f (concat xss) s = fold (\<lambda>xs. fold f xs) xss s"
  by (induction xss arbitrary: s) simp_all

lemma keys_Nil: "keys [] = []"
  by (simp add: keys_def)

lemma countTerms_fold:
  "countTerms terms n m = fold countNGram (concat (map (\<lambda>term. getNGrams term n) terms)) m"
  by (simp add: countTerms_def fold_concat_list fold_map comp_def)

lemma dict_get_fold_countNGram:
  "dict_get (fold countNGram gs m) g 0 = dict_get m g 0 + int (count_list gs g)"
  by (induction gs arbitrary: m) (simp_all add: countNGram_def dict_get_setitem)

lemma keys_fold_countNGram:
  "set (keys (fold countNGram gs m)) = set (keys m) \<union> set gs"
  by (induction gs arbitrary: m) (simp_all add: countNGram_def set_keys_setitem)

lemma is_dict_fold_countNGram: "is_dict m \<Longrightarrow> is_dict (fold countNGram gs m)"
  by (induction gs arbitrary: m) (simp_all add: countNGram_def is_dict_setitem)

lemma count_list_distinct: "distinct xs \<Longrightarrow> count_list xs x = (if x \<in> set xs then 1 else 0)"
  by (induction xs) auto

lemma map_of_addKeys:
  assumes "is_dict fm"
  shows "map_of (addKeys fm m) g =
     (if g \<in> set (keys fm) then Some (dict_get m g 0 + 1) else map_of m g)"
proof -
  have c: "count_list (keys fm) g = (if g \<in> set (keys fm) then 1 else 0)"
    using assms by (simp add: is_dict_def count_list_distinct)
  show ?thesis
    unfolding addKeys_fold map_of_dict_get [where dflt = 0] dict_get_fold_countNGram
      keys_fold_countNGram c
    by simp
qed

lemma getModelFromFile_text:
  "read_text env fn = Inr text \<Longrightarrow>
   getModelFromFile env fn n = Inr (fold countNGram (fileNGrams text n) [])"
  by (simp add: getModelFromFile_def countTerms_fold fileNGrams_def)


lemma fileModel_props:
  assumes "read_text env fn = Inr text" and "getModelFromFile env fn n = Inr fm"
  shows "is_dict fm" and "set (keys fm) = set (fileNGrams text n)"
    and "dict_get fm g 0 = int (count_list (fileNGrams text n) g)"
proof -
  from assms have fm: "fm = fold countNGram (fileNGrams text n) []"
    by (simp add: getModelFromFile_text)
  show "is_dict fm"
    unfolding fm by (rule is_dict_fold_countNGram) (simp add: is_dict_def keys_Nil)
  show "set (keys fm) = set (fileNGrams text n)"
    unfolding fm by (simp add: keys_fold_countNGram keys_Nil)
  show "dict_get fm g 0 = int (count_list (fileNGrams text n) g)"
  proof -
    have "dict_get ([] :: model) g 0 = 0"
      by (simp add: dict_get_def)
    then show ?thesis
      unfolding fm dict_get_fold_countNGram by simp
  qed
qed

text \<open>
  C10. For a file that was read, the loop of \<open>computeSimilarities\<close> raises the count
  of the running model by exactly 1 for each n-gram that occurs in the file, however
  often it occurs there, and leaves every other count as it was; the model that
  \<open>getModelFromFile\<close> returns for the same file holds the number of occurrences.
\<close>

theorem addKeys_document_frequency:
  assumes "read_text env fn = Inr text" and "getModelFromFile env fn n = Inr fileModel"
  shows "(\<forall>g. map_of (addKeys fileModel model) g =
              (if g \<in> set (fileNGrams text n) then Some (dict_get model g 0 + 1)
               else map_of model g))
       \<and> (\<forall>g. map_of fileModel g =
              (if g \<in> set (fileNGrams text n)
               then Some (int (count_list (fileNGrams text n) g)) else None))"
  using fileModel_props [OF assms]
  by (simp add: map_of_addKeys map_of_dict_get [where dflt = 0 and d = fileModel])

theorem addKeys_document_frequency_witness:
  "read_text demo_env ''corpus/a_prep.txt'' = Inr ''a b ccc ddddd''
   \<and> getModelFromFile demo_env ''corpus/a_prep.txt'' 1
       = Inr [(''a'', 1), (''b'', 1), (''c'', 3), (''d'', 5)]
   \<and> map_of (addKeys [(''a'', 1), (''b'', 1), (''c'', 3), (''d'', 5)] [(''c'', 7)]) ''c'' = Some 8
   \<and> map_of [(''a'', 1), (''b'', 1), (''c'', 3), (''d'', 5)] ''c''
       = Some (int (count_list (fileNGrams ''a b ccc ddddd'' 1) ''c''))"
proof -
  have r: "read_text demo_env ''corpus/a_prep.txt'' = Inr ''a b ccc ddddd''"
    by (simp add: demo_env_def)
  have f: "getModelFromFile demo_env ''corpus/a_prep.txt'' 1
       = Inr [(''a'', 1), (''b'', 1), (''c'', 3), (''d'', 5)]"
    by code_simp
  have g: "''c'' \<in> set (fileNGrams ''a b ccc ddddd'' 1)"
    by code_simp
  have v: "dict_get [(''c'', 7::int)] ''c'' 0 + 1 = 8"
    by (simp add: dict_get_def)
  note t = addKeys_document_frequency [OF r f, of "[(''c'', 7)]"]
  have 1: "map_of (addKeys [(''a'', 1), (''b'', 1), (''c'', 3), (''d'', 5)] [(''c'', 7)]) ''c''
       = Some 8"
    using t [THEN conjunct1, THEN spec, of "''c''"] g v by simp
  have 2: "map_of [(''a'', 1), (''b'', 1), (''c'', 3), (''d'', 5)] ''c''
       = Some (int (count_list (fileNGrams ''a b ccc ddddd'' 1) ''c''))"
    using t [THEN conjunct2, THEN spec, of "''c''"] g by (simp only: if_True)
  show ?thesis
    by (intro conjI r f 1 2)
qed

subsection \<open>Scoring a directory\<close>
























subsection \<open>Sources that are not there\<close>

text \<open>
  C3, as the code has it. For a source path that is neither a directory nor a file
  \<open>createModel\<close> raises nothing: it returns the empty model, and writes an empty
  listing when asked to. For a file that cannot be read or decoded the error of the
  read is the result, and no model is returned.
\<close>

theorem createModel_no_source:
  "(\<not> isdir env src \<and> \<not> isfile env src \<longrightarrow>
      createModel env lang src n writeToDisc
        = Inr ([], if writeToDisc then Some [] else None))
   \<and> (\<not> isdir env src \<and> isfile env src \<and> read_text env src = Inl e \<longrightarrow>
      createModel env lang src n writeToDisc = Inl e)"
  by (simp add: createModel_def getModelFromFile_def modelFileRecords_def keys_def)

theorem createModel_no_source_witness:
  "\<not> isdir demo_env ''missing'' \<and> \<not> isfile demo_env ''missing''
   \<and> createModel demo_env ''en'' ''missing'' 2 True = Inr ([], Some [])
   \<and> \<not> isdir demo_env ''locked.txt'' \<and> isfile demo_env ''locked.txt''
   \<and> read_text demo_env ''locked.txt'' = Inl IOError
   \<and> createModel demo_env ''en'' ''locked.txt'' 2 True = Inl IOError"
proof -
  have a: "\<not> isdir demo_env ''missing''" "\<not> isfile demo_env ''missing''"
    and b: "\<not> isdir demo_env ''locked.txt''" "isfile demo_env ''locked.txt''"
      "read_text demo_env ''locked.txt'' = Inl IOError"
    by (simp_all add: demo_env_def)
  have 1: "createModel demo_env ''en'' ''missing'' 2 True = Inr ([], Some [])"
    using createModel_no_source [of demo_env "''missing''" "''en''" 2 True] a by simp
  have 2: "createModel demo_env ''en'' ''locked.txt'' 2 True = Inl IOError"
    using createModel_no_source [of demo_env "''locked.txt''" "''en''" 2 True IOError] b by simp
  show ?thesis
    by (intro conjI a b 1 2)
qed

text \<open>
  C3 as stated fails: the path \<^verbatim>\<open>missing\<close> is neither a file nor a directory and
  cannot be read, and \<open>createModel\<close> returns the empty model for it.
\<close>

theorem createModel_no_source_counterexample:
  "\<not> isdir demo_env ''missing'' \<and> \<not> isfile demo_env ''missing''
   \<and> read_text demo_env ''missing'' = Inl IOError
   \<and> createModel demo_env ''en'' ''missing'' 2 False = Inr ([], None)"
  by (simp add: createModel_def demo_env_def)

subsection \<open>The range of the exact score\<close>

lemma four_mult_le: "4 * u * v \<le> (u + v)\<^sup>2" for u v :: int
proof -
  have "(u + v)\<^sup>2 = (u - v)\<^sup>2 + 4 * u * v"
    by (simp add: power2_eq_square algebra_simps)
  moreover have "0 \<le> (u - v)\<^sup>2"
    by simp
  ultimately show ?thesis
    by linarith
qed

lemma sum_products_squared:
  fixes f g :: "'a \<Rightarrow> int"
  assumes "finite S"
  shows "(\<Sum>x\<in>S. f x * g x)\<^sup>2 \<le> (\<Sum>x\<in>S. (f x)\<^sup>2) * (\<Sum>x\<in>S. (g x)\<^sup>2)"
  using assms
proof (induction S)
  case empty
  then show ?case by simp
next
  case (insert x S)
  define a b X Y Z where "a = f x" and "b = g x" and "X = (\<Sum>x\<in>S. (f x)\<^sup>2)"
    and "Y = (\<Sum>x\<in>S. (g x)\<^sup>2)" and "Z = (\<Sum>x\<in>S. f x * g x)"
  have X: "0 \<le> X" and Y: "0 \<le> Y"
    by (simp_all add: X_def Y_def sum_nonneg)
  have ih: "Z\<^sup>2 \<le> X * Y"
    using insert.IH by (simp add: X_def Y_def Z_def)
  have r: "0 \<le> X * b\<^sup>2 + a\<^sup>2 * Y"
    using X Y by simp
  have "(2 * Z * a * b)\<^sup>2 = 4 * Z\<^sup>2 * (a\<^sup>2 * b\<^sup>2)"
    by (simp add: power2_eq_square)
  also have "\<dots> \<le> 4 * (X * Y) * (a\<^sup>2 * b\<^sup>2)"
    using ih by (intro mult_right_mono mult_left_mono) simp_all
  also have "\<dots> = 4 * (X * b\<^sup>2) * (a\<^sup>2 * Y)"
    by simp
  also have "\<dots> \<le> (X * b\<^sup>2 + a\<^sup>2 * Y)\<^sup>2"
    by (rule four_mult_le)
  finally have "2 * Z * a * b \<le> X * b\<^sup>2 + a\<^sup>2 * Y"
    using r by (rule power2_le_imp_le)
  then have "(Z + a * b)\<^sup>2 \<le> (X + a\<^sup>2) * (Y + b\<^sup>2)"
    using ih by (simp add: power2_sum algebra_simps power2_eq_square)
  then show ?case
    using insert.hyps by (simp add: a_def b_def X_def Y_def Z_def add.commute)
qed

lemma specN_squared: "(specN A B)\<^sup>2 \<le> specD1 A * specD2 A B"
proof -
  have "(specN A B)\<^sup>2
      \<le> (\<Sum>g\<in>set (keys A). (dict_get A g 0)\<^sup>2) * (\<Sum>g\<in>set (keys A). (dict_get B g 0)\<^sup>2)"
    unfolding specN_def by (rule sum_products_squared) simp
  also have "\<dots> \<le> specD1 A * specD2 A B"
    unfolding specD1_def specD2_def
    by (intro mult_left_mono sum_mono2 sum_nonneg) auto
  finally show ?thesis .
qed

text \<open>
  In exact arithmetic the score of two models with counts that are not negative lies
  between 0 and 1 whenever one is returned. The value that Python returns is this
  quotient in double precision, the square roots, their product and the division each
  rounded; for denominators such as 3 the rounded product of the roots is below 3 and the
  rounded quotient above 1, so the bound is a fact about the formula, not about the float.
\<close>

lemma getCosSim_exact_bounds:
  assumes "is_dict A" and "is_dict B"
    and "\<forall>g. 0 \<le> dict_get A g 0" and "\<forall>g. 0 \<le> dict_get B g 0"
    and "getCosSim A B = Inr s"
  shows "0 \<le> s \<and> s \<le> 1"
proof -
  let ?d = "sqrt (real_of_int (specD1 A)) * sqrt (real_of_int (specD2 A B))"
  from assms(5) have d: "?d \<noteq> 0" and s: "s = real_of_int (specN A B) / ?d"
    unfolding getCosSim_spec [OF assms(1,2)] by (simp_all split: if_splits)
  have n: "0 \<le> specN A B"
    unfolding specN_def using assms(3,4) by (intro sum_nonneg mult_nonneg_nonneg) simp_all
  have z: "0 \<le> ?d"
    by (simp add: specD1_def specD2_def sum_nonneg)
  have p: "0 < ?d"
    by (rule order.not_eq_order_implies_strict [OF d [THEN not_sym] z])
  have "(real_of_int (specN A B))\<^sup>2 \<le> real_of_int (specD1 A * specD2 A B)"
    using specN_squared [of A B] by (metis of_int_le_iff of_int_power)
  then have "real_of_int (specN A B) \<le> sqrt (real_of_int (specD1 A * specD2 A B))"
    by (rule real_le_rsqrt)
  then have "real_of_int (specN A B) \<le> ?d"
    by (simp add: real_sqrt_mult)
  with p n show ?thesis
    unfolding s by simp
qed

end
